theory Spec2Isabelle
  imports Main
begin

section \<open>Response envelopes\<close>

text \<open>
  Exceptions that the manager's methods can raise, as values. \<open>Failure\<close> carries the
  remote error captured in a response; the others are the interpreter's own errors.
\<close>

datatype exn = Failure string | AttributeError | ValueError | IndexError | OverflowError

text \<open>
  Modelled from the spec: the class \<open>nova.cells.messaging.Response\<close> is not under src/.
  The spec's ResultEnvelope is \<open>{cell_name, outcome: Value | Failure}\<close>; the type of cell
  names and address parts is left open (\<open>'c\<close>), since the source never inspects them.
\<close>

datatype 'v outcome = Value 'v | Failed string

record ('c, 'v) response =
  cell_name :: 'c
  outcome :: "'v outcome"

definition ok :: "'c \<Rightarrow> 'v \<Rightarrow> ('c, 'v) response" where
  "ok c v = \<lparr>cell_name = c, outcome = Value v\<rparr>"

definition fail :: "'c \<Rightarrow> string \<Rightarrow> ('c, 'v) response" where
  "fail c f = \<lparr>cell_name = c, outcome = Failed f\<rparr>"

definition is_failed :: "('c, 'v) response \<Rightarrow> bool" where
  "is_failed r = (case outcome r of Value _ \<Rightarrow> False | Failed _ \<Rightarrow> True)"

text \<open>
  Modelled from the spec: \<open>Response.value_or_raise\<close> is not under src/. The spec's
  \<open>unwrap\<close> returns the value, or fails with the envelope's captured Failure.
\<close>

definition value_or_raise :: "('c, 'v) response \<Rightarrow> exn + 'v" where
  "value_or_raise r = (case outcome r of Value v \<Rightarrow> Inr v | Failed f \<Rightarrow> Inl (Failure f))"

section \<open>Broadcast queries aggregated by list concatenation\<close>

text \<open>
  The helpers \<open>cells_utils.add_cell_to_service\<close>, \<open>add_cell_to_task_log\<close> and
  \<open>add_cell_to_compute_node\<close> are not under src/; they are taken as a parameter
  \<open>add_cell\<close> that maps an item and a cell name to the tagged item (the source's helpers
  tag the item in place). The message runner's methods are parameters too: they return the
  responses of the cells.

  The inner loop \<open>for item in items: add_cell(item, cell); ret.append(item)\<close>:
\<close>

fun append_tagged :: "('a \<Rightarrow> 'c \<Rightarrow> 'b) \<Rightarrow> 'c \<Rightarrow> 'b list \<Rightarrow> 'a list \<Rightarrow> 'b list" where
  "append_tagged add_cell c ret [] = ret"
| "append_tagged add_cell c ret (x # xs) = append_tagged add_cell c (ret @ [add_cell x c]) xs"

text \<open>
  The outer loop \<open>for response in responses: items = response.value_or_raise(); ...\<close>,
  which the three list queries share word for word. An exception leaves the loop at once.
\<close>

fun concat_responses ::
  "('a \<Rightarrow> 'c \<Rightarrow> 'b) \<Rightarrow> 'b list \<Rightarrow> ('c, 'a list) response list \<Rightarrow> exn + 'b list" where
  "concat_responses add_cell ret [] = Inr ret"
| "concat_responses add_cell ret (r # rs) =
     (case value_or_raise r of
        Inl e \<Rightarrow> Inl e
      | Inr items \<Rightarrow> concat_responses add_cell (append_tagged add_cell (cell_name r) ret items) rs)"

definition service_get_all ::
  "('flt \<Rightarrow> ('c, 'a list) response list) \<Rightarrow> ('a \<Rightarrow> 'c \<Rightarrow> 'b) \<Rightarrow> 'flt \<Rightarrow> exn + 'b list" where
  "service_get_all msg_runner add_cell_to_service filters =
     (let responses = msg_runner filters in concat_responses add_cell_to_service [] responses)"

definition compute_node_get_all ::
  "('m \<Rightarrow> ('c, 'a list) response list) \<Rightarrow> ('a \<Rightarrow> 'c \<Rightarrow> 'b) \<Rightarrow> 'm \<Rightarrow> exn + 'b list" where
  "compute_node_get_all msg_runner add_cell_to_compute_node hypervisor_match =
     (let responses = msg_runner hypervisor_match
      in concat_responses add_cell_to_compute_node [] responses)"

text \<open>
  \<open>task_log_get_all\<close> first resolves the optional \<open>host\<close>. The helper
  \<open>cells_utils.split_cell_and_item\<close> is not under src/ and is a parameter returning the
  sequence of parts; \<open>result[0]\<close> on an empty sequence raises IndexError. The arguments
  \<open>task_name\<close>, \<open>period_beginning\<close> and \<open>period_ending\<close> are passed on unchanged
  (\<open>args\<close>).
\<close>

definition task_log_get_all ::
  "('h \<Rightarrow> 'c list) \<Rightarrow> ('c option \<Rightarrow> 'args \<Rightarrow> 'c option \<Rightarrow> 's \<Rightarrow> ('c, 'a list) response list) \<Rightarrow>
   ('a \<Rightarrow> 'c \<Rightarrow> 'b) \<Rightarrow> 'args \<Rightarrow> 'h option \<Rightarrow> 's \<Rightarrow> exn + 'b list" where
  "task_log_get_all split_cell_and_item msg_runner add_cell_to_task_log args host state =
     (case host of
        None \<Rightarrow> concat_responses add_cell_to_task_log [] (msg_runner None args None state)
      | Some h \<Rightarrow>
          (case split_cell_and_item h of
             [] \<Rightarrow> Inl IndexError
           | c # rest \<Rightarrow>
               (let cell = c;
                    host' = (if length (c # rest) > 1 then Some (rest ! 0) else None)
                in concat_responses add_cell_to_task_log []
                     (msg_runner (Some cell) args host' state))))"

text \<open>What the spec expects of list aggregation: per-cell lists, tagged, in envelope order.\<close>

definition tagged_concat :: "('a \<Rightarrow> 'c \<Rightarrow> 'b) \<Rightarrow> ('c \<times> 'a list) list \<Rightarrow> 'b list" where
  "tagged_concat add_cell cxs = concat (map (\<lambda>(c, xs). map (\<lambda>x. add_cell x c) xs) cxs)"

text \<open>The resolution of \<open>host\<close> in \<open>task_log_get_all\<close> does not raise.\<close>

definition host_resolves :: "('h \<Rightarrow> 'c list) \<Rightarrow> 'h option \<Rightarrow> bool" where
  "host_resolves split_cell_and_item host =
     (case host of None \<Rightarrow> True | Some h \<Rightarrow> split_cell_and_item h \<noteq> [])"

section \<open>Broadcast query aggregated by key-wise sums\<close>

text \<open>
  \<open>compute_node_stats\<close>. A response's value is a dictionary, given as the list of its items
  in iteration order; \<open>totals\<close> is the dictionary being built. \<open>setdefault\<close> is the
  dictionary method: it stores the default only where the key is missing.
\<close>

definition setdefault :: "('k \<rightharpoonup> 'v) \<Rightarrow> 'k \<Rightarrow> 'v \<Rightarrow> ('k \<rightharpoonup> 'v)" where
  "setdefault d k v = (case d k of None \<Rightarrow> d(k \<mapsto> v) | Some _ \<Rightarrow> d)"

fun add_items :: "('k \<rightharpoonup> int) \<Rightarrow> ('k \<times> int) list \<Rightarrow> ('k \<rightharpoonup> int)" where
  "add_items totals [] = totals"
| "add_items totals ((key, v) # kvs) =
     (let totals1 = setdefault totals key 0;
          totals2 = (case totals1 key of Some t \<Rightarrow> totals1(key \<mapsto> t + v) | None \<Rightarrow> totals1)
      in add_items totals2 kvs)"

fun sum_responses ::
  "('k \<rightharpoonup> int) \<Rightarrow> ('c, ('k \<times> int) list) response list \<Rightarrow> exn + ('k \<rightharpoonup> int)" where
  "sum_responses totals [] = Inr totals"
| "sum_responses totals (r # rs) =
     (case value_or_raise r of
        Inl e \<Rightarrow> Inl e
      | Inr data \<Rightarrow> sum_responses (add_items totals data) rs)"

definition compute_node_stats ::
  "('ctxt \<Rightarrow> ('c, ('k \<times> int) list) response list) \<Rightarrow> 'ctxt \<Rightarrow> exn + ('k \<rightharpoonup> int)" where
  "compute_node_stats msg_runner ctxt =
     (let responses = msg_runner ctxt in sum_responses Map.empty responses)"

text \<open>
  What the spec expects of the sum: a key absent from a response's dictionary contributes
  zero, and the keys of the result are the keys seen. A dictionary has each key once.
\<close>

definition stat_at :: "('k \<times> int) list \<Rightarrow> 'k \<Rightarrow> int" where
  "stat_at d k = (case map_of d k of None \<Rightarrow> 0 | Some v \<Rightarrow> v)"

definition summed_stats :: "('c \<times> ('k \<times> int) list) list \<Rightarrow> ('k \<rightharpoonup> int)" where
  "summed_stats cds k =
     (if k \<in> set (concat (map (\<lambda>(c, d). map fst d) cds))
      then Some (sum_list (map (\<lambda>(c, d). stat_at d k) cds)) else None)"

definition dicts_wf :: "('c \<times> ('k \<times> int) list) list \<Rightarrow> bool" where
  "dicts_wf cds = list_all (\<lambda>(c, d). distinct (map fst d)) cds"

section \<open>Targeted queries\<close>

text \<open>
  Tuple unpacking \<open>cell_name, item = cells_utils.split_cell_and_item(...)\<close>: it needs
  exactly two parts and raises ValueError otherwise.
\<close>

definition unpack2 :: "'c list \<Rightarrow> exn + 'c \<times> 'c" where
  "unpack2 parts = (case parts of [a, b] \<Rightarrow> Inr (a, b) | _ \<Rightarrow> Inl ValueError)"

text \<open>
  \<open>service_get_by_compute_host\<close> and \<open>compute_node_get\<close>: the message runner is asked
  for the one cell named in the argument, and its response is unwrapped.
\<close>

definition service_get_by_compute_host ::
  "('h \<Rightarrow> 'c list) \<Rightarrow> ('c \<Rightarrow> 'c \<Rightarrow> ('c, 'a) response) \<Rightarrow> ('a \<Rightarrow> 'c \<Rightarrow> 'b) \<Rightarrow> 'h \<Rightarrow> exn + 'b" where
  "service_get_by_compute_host split_cell_and_item msg_runner add_cell_to_service host_name =
     (case unpack2 (split_cell_and_item host_name) of
        Inl e \<Rightarrow> Inl e
      | Inr (cell, host_name') \<Rightarrow>
          (let response = msg_runner cell host_name'
           in case value_or_raise response of
                Inl e \<Rightarrow> Inl e
              | Inr service \<Rightarrow> Inr (add_cell_to_service service (cell_name response))))"

definition compute_node_get ::
  "('h \<Rightarrow> 'c list) \<Rightarrow> ('c \<Rightarrow> 'c \<Rightarrow> ('c, 'a) response) \<Rightarrow> ('a \<Rightarrow> 'c \<Rightarrow> 'b) \<Rightarrow> 'h \<Rightarrow> exn + 'b" where
  "compute_node_get split_cell_and_item msg_runner add_cell_to_compute_node compute_id =
     (case unpack2 (split_cell_and_item compute_id) of
        Inl e \<Rightarrow> Inl e
      | Inr (cell, compute_id') \<Rightarrow>
          (let response = msg_runner cell compute_id'
           in case value_or_raise response of
                Inl e \<Rightarrow> Inl e
              | Inr node \<Rightarrow> Inr (add_cell_to_compute_node node cell)))"

text \<open>
  Where the caller passes \<open>call\<close>, the message runner may have no response to give: its
  result is optional, and \<open>response.value_or_raise()\<close> on \<open>None\<close> raises AttributeError.
  A method that ends without \<open>return\<close> gives \<open>None\<close>: the result of these two methods is
  optional as well.
\<close>

definition value_or_raise_of :: "('c, 'v) response option \<Rightarrow> exn + 'v" where
  "value_or_raise_of response =
     (case response of None \<Rightarrow> Inl AttributeError | Some r \<Rightarrow> value_or_raise r)"

definition run_compute_api_method ::
  "('c \<Rightarrow> 'm \<Rightarrow> bool \<Rightarrow> ('c, 'v) response option) \<Rightarrow> 'c \<Rightarrow> 'm \<Rightarrow> bool \<Rightarrow> exn + 'v option" where
  "run_compute_api_method msg_runner cell method_info call =
     (let response = msg_runner cell method_info call
      in if call
         then (case value_or_raise_of response of Inl e \<Rightarrow> Inl e | Inr v \<Rightarrow> Inr (Some v))
         else Inr None)"

text \<open>
  \<open>proxy_rpc_to_manager\<close>: \<open>compute_topic\<close> is \<open>CONF.compute_topic\<close>; the slice
  \<open>topic[len(compute_topic) + 1:]\<close> is \<open>drop\<close>, empty beyond the end as in Python.
\<close>

definition proxy_rpc_to_manager ::
  "string \<Rightarrow> (string \<Rightarrow> 'c list) \<Rightarrow>
   ('c \<Rightarrow> 'c \<Rightarrow> string \<Rightarrow> 'm \<Rightarrow> bool \<Rightarrow> 't \<Rightarrow> ('c, 'v) response option) \<Rightarrow>
   string \<Rightarrow> 'm \<Rightarrow> bool \<Rightarrow> 't \<Rightarrow> exn + 'v option" where
  "proxy_rpc_to_manager compute_topic split_cell_and_item msg_runner topic rpc_message call timeout =
     (let cell_and_host = drop (length compute_topic + 1) topic
      in case unpack2 (split_cell_and_item cell_and_host) of
           Inl e \<Rightarrow> Inl e
         | Inr (cell, host_name) \<Rightarrow>
             (let response = msg_runner cell host_name topic rpc_message call timeout
              in case value_or_raise_of response of Inl e \<Rightarrow> Inl e | Inr v \<Rightarrow> Inr (Some v)))"

text \<open>A splitting function for the examples: one known address, anything else unsplit.\<close>

definition example_split :: "string \<Rightarrow> string list" where
  "example_split s = (if s = ''cell1@host1'' then [''cell1'', ''host1''] else [s])"

section \<open>The periodic task that heals instances\<close>

text \<open>
  An instance as the database returns it; only \<open>deleted\<close> is read by the manager.
\<close>

record db_instance =
  uuid :: string
  deleted :: bool

text \<open>
  What a run of the task does to its collaborators, in order: the listing of instances to
  sync (\<open>cells_utils.get_instances_to_sync\<close>, with its \<open>updated_since\<close>), the lookup of one
  instance (\<open>self.db.instance_get_by_uuid\<close>) and the two messages sent to the parent cells.
  \<open>time.sleep(0)\<close> only yields to other threads and leaves no event.
\<close>

datatype event =
    Scan "int option"
  | Lookup string
  | UpdateAtTop db_instance
  | DestroyAtTop db_instance

text \<open>The two options of \<open>CONF.cells\<close> that the task reads.\<close>

record conf =
  instance_updated_at_threshold :: int
  instance_update_num_instances :: int

text \<open>
  The collaborators, none of them under src/, as parameters: the parent cells of the state
  manager, the clock (\<open>timeutils.utcnow()\<close>, in microseconds since \<open>datetime.min\<close>), the
  platform's \<open>sys.maxint\<close>, the listing, and the lookup, where \<open>None\<close> stands for
  \<open>exception.InstanceNotFound\<close>.
\<close>

record env =
  get_parent_cells :: "string list"
  utcnow :: int
  maxint :: int
  get_instances_to_sync :: "int option \<Rightarrow> string list"
  instance_get_by_uuid :: "string \<Rightarrow> db_instance option"

text \<open>
  The iterator \<open>self.instances_to_heal\<close>, as the list of what it has left to yield, and the
  flag \<open>info['updated_list']\<close>.
\<close>

record heal_state =
  instances_to_heal :: "string list"
  updated_list :: bool

text \<open>
  \<open>instance_update_at_top\<close> and \<open>instance_destroy_at_top\<close> hand the instance to the
  message runner; \<open>_sync_instance\<close> chooses between them.
\<close>

definition instance_update_at_top :: "db_instance \<Rightarrow> event list" where
  "instance_update_at_top inst = [UpdateAtTop inst]"

definition instance_destroy_at_top :: "db_instance \<Rightarrow> event list" where
  "instance_destroy_at_top inst = [DestroyAtTop inst]"

definition sync_instance :: "db_instance \<Rightarrow> event list" where
  "sync_instance inst =
     (if deleted inst then instance_destroy_at_top inst else instance_update_at_top inst)"

text \<open>
  The \<open>updated_since\<close> of a refill. \<open>utcnow() - timedelta(seconds=threshold)\<close> raises
  OverflowError when the result is before \<open>datetime.min\<close>.
\<close>

definition refill_since :: "conf \<Rightarrow> env \<Rightarrow> exn + int option" where
  "refill_since c e =
     (let threshold = instance_updated_at_threshold c
      in if threshold > 0
         then (if utcnow e - threshold * 1000000 < 0 then Inl OverflowError
               else Inr (Some (utcnow e - threshold * 1000000)))
         else Inr None)"

text \<open>
  The closure \<open>_next_instance\<close>: its result (an exception, \<open>None\<close> or a uuid), the state
  it leaves and the events it caused.
\<close>

definition next_instance ::
  "conf \<Rightarrow> env \<Rightarrow> heal_state \<Rightarrow> (exn + string option) \<times> heal_state \<times> event list" where
  "next_instance c e st =
     (case instances_to_heal st of
        inst # rest \<Rightarrow> (Inr (Some inst), st\<lparr>instances_to_heal := rest\<rparr>, [])
      | [] \<Rightarrow>
          if updated_list st then (Inr None, st, [])
          else (case refill_since c e of
                  Inl x \<Rightarrow> (Inl x, st, [])
                | Inr updated_since \<Rightarrow>
                    (let st1 = st\<lparr>instances_to_heal := get_instances_to_sync e updated_since,
                                  updated_list := True\<rparr>
                     in case instances_to_heal st1 of
                          [] \<Rightarrow> (Inr None, st1, [Scan updated_since])
                        | inst # rest \<Rightarrow>
                            (Inr (Some inst), st1\<lparr>instances_to_heal := rest\<rparr>,
                             [Scan updated_since]))))"

text \<open>What the loop can still draw: the measure of its termination.\<close>

definition backlog :: "conf \<Rightarrow> env \<Rightarrow> heal_state \<Rightarrow> nat" where
  "backlog c e st =
     length (instances_to_heal st) +
     (if updated_list st then 0
      else (case refill_since c e of
              Inl _ \<Rightarrow> 0
            | Inr updated_since \<Rightarrow> Suc (length (get_instances_to_sync e updated_since))))"

text \<open>Events that happen before those of the rest of a run.\<close>

definition emit :: "event list \<Rightarrow> 'x \<times> 's \<times> event list \<Rightarrow> 'x \<times> 's \<times> event list" where
  "emit evs res = (case res of (x, st, evs') \<Rightarrow> (x, st, evs @ evs'))"

text \<open>
  The nested iteration \<open>for i in xrange(...): while True: ...\<close>, with the number of
  slots left.
  \<open>if not instance_uuid\<close> holds of \<open>None\<close> and of the empty string; \<open>continue\<close> stays in
  the slot, \<open>break\<close> goes to the next one.
\<close>

function heal_loop ::
  "conf \<Rightarrow> env \<Rightarrow> nat \<Rightarrow> heal_state \<Rightarrow> exn option \<times> heal_state \<times> event list" where
  "heal_loop c e 0 st = (None, st, [])"
| "heal_loop c e (Suc n) st =
     (case next_instance c e st of
        (Inl x, st1, evs) \<Rightarrow> (Some x, st1, evs)
      | (Inr None, st1, evs) \<Rightarrow> (None, st1, evs)
      | (Inr (Some instance_uuid), st1, evs) \<Rightarrow>
          if instance_uuid = [] then (None, st1, evs)
          else (case instance_get_by_uuid e instance_uuid of
                  None \<Rightarrow> emit (evs @ [Lookup instance_uuid]) (heal_loop c e (Suc n) st1)
                | Some inst \<Rightarrow>
                    emit (evs @ [Lookup instance_uuid] @ sync_instance inst)
                      (heal_loop c e n st1)))"
  by pat_completeness auto
termination
  apply (relation "measure (\<lambda>(c, e, n, st). backlog c e st)")
    apply simp
   apply (auto simp: next_instance_def backlog_def Let_def
      split: list.splits if_splits sum.splits)
  done

text \<open>
  \<open>xrange\<close> raises OverflowError for a number that is no C long, and is empty for a
  negative one.
\<close>

definition xrange_overflows :: "env \<Rightarrow> int \<Rightarrow> bool" where
  "xrange_overflows e n = (n > maxint e \<or> n < - maxint e - 1)"

text \<open>
  \<open>_heal_instances\<close>, from the iterator left by the last run: the exception raised if any,
  the iterator it leaves, and its events.
\<close>

definition heal_instances ::
  "conf \<Rightarrow> env \<Rightarrow> string list \<Rightarrow> exn option \<times> string list \<times> event list" where
  "heal_instances c e pending =
     (if get_parent_cells e = [] then (None, pending, [])
      else if xrange_overflows e (instance_update_num_instances c)
      then (Some OverflowError, pending, [])
      else (case heal_loop c e (nat (instance_update_num_instances c))
                   \<lparr>instances_to_heal = pending, updated_list = False\<rparr> of
              (x, st, evs) \<Rightarrow> (x, instances_to_heal st, evs)))"

text \<open>Readings of a run's events.\<close>

definition events_of :: "'x \<times> 's \<times> event list \<Rightarrow> event list" where
  "events_of res = snd (snd res)"

fun is_emission :: "event \<Rightarrow> bool" where
  "is_emission (UpdateAtTop _) = True"
| "is_emission (DestroyAtTop _) = True"
| "is_emission _ = False"

fun is_scan :: "event \<Rightarrow> bool" where
  "is_scan (Scan _) = True"
| "is_scan _ = False"

definition num_synced :: "event list \<Rightarrow> nat" where
  "num_synced evs = length (filter is_emission evs)"

definition num_scans :: "event list \<Rightarrow> nat" where
  "num_scans evs = length (filter is_scan evs)"

definition emission_for :: "db_instance \<Rightarrow> event" where
  "emission_for inst = (if deleted inst then DestroyAtTop inst else UpdateAtTop inst)"

fun looked_up :: "env \<Rightarrow> event \<Rightarrow> db_instance option" where
  "looked_up e (Lookup u) = instance_get_by_uuid e u"
| "looked_up e _ = None"

definition found_records :: "env \<Rightarrow> event list \<Rightarrow> db_instance list" where
  "found_records e evs = List.map_filter (looked_up e) evs"

text \<open>A database, collaborators and options for the examples.\<close>

definition example_db :: "string \<Rightarrow> db_instance option" where
  "example_db u =
     (if u = ''a'' then Some \<lparr>uuid = ''a'', deleted = False\<rparr>
      else if u = ''c'' then Some \<lparr>uuid = ''c'', deleted = True\<rparr>
      else if u = ''d'' then Some \<lparr>uuid = ''d'', deleted = False\<rparr>
      else None)"

definition example_env :: "string list \<Rightarrow> env" where
  "example_env listing =
     \<lparr>get_parent_cells = [''parent''], utcnow = 5000000000, maxint = 9223372036854775807,
      get_instances_to_sync = (\<lambda>updated_since. listing),
      instance_get_by_uuid = example_db\<rparr>"

definition example_conf :: "int \<Rightarrow> int \<Rightarrow> conf" where
  "example_conf threshold num =
     \<lparr>instance_updated_at_threshold = threshold, instance_update_num_instances = num\<rparr>"

text \<open>
  A record store for the examples whose listing honours \<open>updated_since\<close>: it holds
  uuids with the time of their last change.
\<close>

definition example_store :: "(string \<times> int) list" where
  "example_store = [(''a'', 1000000000), (''c'', 2000000000), (''d'', 4000000000)]"

definition example_listing :: "int option \<Rightarrow> string list" where
  "example_listing updated_since =
     map fst (filter (\<lambda>(u, t). case updated_since of None \<Rightarrow> True | Some s \<Rightarrow> s \<le> t)
       example_store)"

definition example_store_env :: env where
  "example_store_env = (example_env [])\<lparr>get_instances_to_sync := example_listing\<rparr>"

section \<open>Lemmas on list aggregation\<close>

lemma append_tagged_eq: "append_tagged add_cell c ret xs = ret @ map (\<lambda>x. add_cell x c) xs"
  by (induction xs arbitrary: ret) simp_all

lemma concat_responses_ok:
  "concat_responses add_cell ret (map (\<lambda>(c, xs). ok c xs) cxs) = Inr (ret @ tagged_concat add_cell cxs)"
  by (induction cxs arbitrary: ret)
     (auto simp: tagged_concat_def ok_def value_or_raise_def append_tagged_eq)

lemma concat_responses_first_failure:
  "find is_failed rs = Some r \<Longrightarrow> outcome r = Failed f \<Longrightarrow>
   concat_responses add_cell ret rs = Inl (Failure f)"
proof (induction rs arbitrary: ret)
  case Nil
  then show ?case by simp
next
  case (Cons a rs)
  show ?case
  proof (cases "is_failed a")
    case True
    with Cons.prems have "a = r" by simp
    with Cons.prems show ?thesis by (simp add: value_or_raise_def)
  next
    case False
    then obtain v where v: "outcome a = Value v"
      by (cases "outcome a") (simp_all add: is_failed_def)
    from False Cons.prems have "find is_failed rs = Some r" by simp
    with Cons.IH Cons.prems(2) v show ?thesis by (simp add: value_or_raise_def)
  qed
qed

lemma find_is_failed:
  "\<exists>r\<in>set rs. is_failed r \<Longrightarrow> \<exists>r f. find is_failed rs = Some r \<and> outcome r = Failed f"
proof -
  assume "\<exists>r\<in>set rs. is_failed r"
  then obtain r where r: "find is_failed rs = Some r"
    by (cases "find is_failed rs") (auto simp: find_None_iff)
  then have "is_failed r" by (auto simp: find_Some_iff)
  then obtain f where "outcome r = Failed f"
    by (cases "outcome r") (simp_all add: is_failed_def)
  with r show ?thesis by blast
qed

lemma task_log_get_all_resolved:
  "host_resolves split_cell_and_item host \<Longrightarrow>
   task_log_get_all split_cell_and_item (\<lambda>_ _ _ _. rs) add_cell args host state =
     concat_responses add_cell [] rs"
  by (cases host)
     (auto simp: host_resolves_def task_log_get_all_def Let_def split: list.splits)

section \<open>Claims on list aggregation\<close>

text \<open>
  C4. For every broadcast query aggregated by list concatenation (service_get_all,
  task_log_get_all, compute_node_get_all): if any response carries a Failure, the whole call
  raises the Failure of the first failed response in iteration order, whatever the other
  responses hold; no list is returned. For task_log_get_all the optional host must resolve,
  so that the message runner is reached at all.
\<close>

theorem list_queries_fail_fast:
  assumes "\<exists>r\<in>set rs. is_failed r"
    and "host_resolves split_cell_and_item host"
  shows "\<exists>r f. find is_failed rs = Some r \<and> outcome r = Failed f \<and>
           service_get_all (\<lambda>_. rs) add_cell_s filters = Inl (Failure f) \<and>
           task_log_get_all split_cell_and_item (\<lambda>_ _ _ _. rs) add_cell_t args host state
             = Inl (Failure f) \<and>
           compute_node_get_all (\<lambda>_. rs) add_cell_n hypervisor_match = Inl (Failure f)"
proof -
  from assms(1) obtain r f where rf: "find is_failed rs = Some r" "outcome r = Failed f"
    using find_is_failed by blast
  have "service_get_all (\<lambda>_. rs) add_cell_s filters = Inl (Failure f)"
    using rf by (simp add: service_get_all_def concat_responses_first_failure)
  moreover have "task_log_get_all split_cell_and_item (\<lambda>_ _ _ _. rs) add_cell_t args host state
      = Inl (Failure f)"
    using rf assms(2) by (simp add: task_log_get_all_resolved concat_responses_first_failure)
  moreover have "compute_node_get_all (\<lambda>_. rs) add_cell_n hypervisor_match = Inl (Failure f)"
    using rf by (simp add: compute_node_get_all_def concat_responses_first_failure)
  ultimately show ?thesis using rf by blast
qed

theorem list_queries_fail_fast_witness:
  "find is_failed [ok ''cellA'' [1::nat], fail ''cellB'' ''boom'', ok ''cellC'' [2], fail ''cellD'' ''late'']
     = Some (fail ''cellB'' ''boom'') \<and>
   host_resolves (\<lambda>h. [h, ''host1'']) (Some ''cellA'') \<and>
   service_get_all
     (\<lambda>_. [ok ''cellA'' [1::nat], fail ''cellB'' ''boom'', ok ''cellC'' [2], fail ''cellD'' ''late''])
     (\<lambda>x c. (c, x)) () = Inl (Failure ''boom'') \<and>
   task_log_get_all (\<lambda>h. [h, ''host1''])
     (\<lambda>_ _ _ _. [ok ''cellA'' [1::nat], fail ''cellB'' ''boom'', ok ''cellC'' [2], fail ''cellD'' ''late''])
     (\<lambda>x c. (c, x)) () (Some ''cellA'') () = Inl (Failure ''boom'') \<and>
   compute_node_get_all
     (\<lambda>_. [ok ''cellA'' [1::nat], fail ''cellB'' ''boom'', ok ''cellC'' [2], fail ''cellD'' ''late''])
     (\<lambda>x c. (c, x)) () = Inl (Failure ''boom'')"
  using list_queries_fail_fast
    [where rs = "[ok ''cellA'' [1::nat], fail ''cellB'' ''boom'', ok ''cellC'' [2], fail ''cellD'' ''late'']"
       and split_cell_and_item = "\<lambda>h. [h, ''host1'']" and host = "Some ''cellA''"
       and add_cell_s = "\<lambda>x c. (c, x)" and add_cell_t = "\<lambda>x c. (c, x)"
       and add_cell_n = "\<lambda>x c. (c, x)" and filters = "()" and args = "()" and state = "()"
       and hypervisor_match = "()"]
  by (simp add: ok_def fail_def is_failed_def host_resolves_def)

text \<open>
  C5. For every sequence of all-successful responses, the list queries return the
  concatenation of the per-cell lists in envelope order, each element tagged with the
  cell_name of the response it came from. For task_log_get_all the optional host must
  resolve.
\<close>

theorem list_queries_concat_tagged:
  assumes "host_resolves split_cell_and_item host"
  shows "service_get_all (\<lambda>_. map (\<lambda>(c, xs). ok c xs) cxs) add_cell_s filters
           = Inr (tagged_concat add_cell_s cxs) \<and>
         task_log_get_all split_cell_and_item (\<lambda>_ _ _ _. map (\<lambda>(c, xs). ok c xs) cxs)
             add_cell_t args host state
           = Inr (tagged_concat add_cell_t cxs) \<and>
         compute_node_get_all (\<lambda>_. map (\<lambda>(c, xs). ok c xs) cxs) add_cell_n hypervisor_match
           = Inr (tagged_concat add_cell_n cxs)"
  using assms
  by (simp add: service_get_all_def compute_node_get_all_def task_log_get_all_resolved
      concat_responses_ok)

theorem list_queries_concat_tagged_witness:
  "host_resolves (\<lambda>h. [h]) (None :: string option) \<and>
   service_get_all (\<lambda>_. [ok ''cellA'' [1::nat, 2], ok ''cellB'' [3]]) (\<lambda>x c. (c, x)) ()
     = Inr [(''cellA'', 1), (''cellA'', 2), (''cellB'', 3)] \<and>
   task_log_get_all (\<lambda>h. [h]) (\<lambda>_ _ _ _. [ok ''cellA'' [1::nat, 2], ok ''cellB'' [3]])
       (\<lambda>x c. (c, x)) () (None :: string option) ()
     = Inr [(''cellA'', 1), (''cellA'', 2), (''cellB'', 3)] \<and>
   compute_node_get_all (\<lambda>_. [ok ''cellA'' [1::nat, 2], ok ''cellB'' [3]]) (\<lambda>x c. (c, x)) ()
     = Inr [(''cellA'', 1), (''cellA'', 2), (''cellB'', 3)]"
  using list_queries_concat_tagged
    [where cxs = "[(''cellA'', [1::nat, 2]), (''cellB'', [3])]"
       and split_cell_and_item = "\<lambda>h. [h]" and host = "None :: string option"
       and add_cell_s = "\<lambda>x c. (c, x)" and add_cell_t = "\<lambda>x c. (c, x)"
       and add_cell_n = "\<lambda>x c. (c, x)" and filters = "()" and args = "()" and state = "()"
       and hypervisor_match = "()"]
  by (simp add: host_resolves_def tagged_concat_def)

section \<open>Lemmas on key-wise sums\<close>

lemma add_items_apply:
  "distinct (map fst d) \<Longrightarrow>
   add_items totals d k =
     (if k \<in> fst ` set d then Some ((case totals k of None \<Rightarrow> 0 | Some t \<Rightarrow> t) + stat_at d k)
      else totals k)"
proof (induction d arbitrary: totals)
  case Nil
  then show ?case by simp
next
  case (Cons a d)
  obtain key v where a: "a = (key, v)" by (cases a)
  from Cons.prems a have nk: "key \<notin> fst ` set d" and dd: "distinct (map fst d)" by auto
  have mk: "map_of d key = None" using nk by (simp add: map_of_eq_None_iff)
  show ?case
    using Cons.IH[OF dd] a nk mk
    by (auto simp: setdefault_def stat_at_def Let_def split: option.splits)
qed

lemma stat_at_absent: "k \<notin> fst ` set d \<Longrightarrow> stat_at d k = 0"
  by (auto simp: stat_at_def split: option.splits dest: map_of_SomeD intro: rev_image_eqI)

lemma sum_stat_at_absent:
  "k \<notin> set (concat (map (\<lambda>(c, d). map fst d) cds)) \<Longrightarrow>
   sum_list (map (\<lambda>(c, d). stat_at d k) cds) = 0"
  by (induction cds) (auto simp: stat_at_absent)

lemma sum_responses_ok:
  "dicts_wf cds \<Longrightarrow>
   \<exists>totals'. sum_responses totals (map (\<lambda>(c, d). ok c d) cds) = Inr totals' \<and>
     (\<forall>k. totals' k =
        (if k \<in> set (concat (map (\<lambda>(c, d). map fst d) cds))
         then Some ((case totals k of None \<Rightarrow> 0 | Some t \<Rightarrow> t) + sum_list (map (\<lambda>(c, d). stat_at d k) cds))
         else totals k))"
proof (induction cds arbitrary: totals)
  case Nil
  then show ?case by simp
next
  case (Cons a cds)
  obtain c d where a: "a = (c, d)" by (cases a)
  from Cons.prems a have dd: "distinct (map fst d)" and wf: "dicts_wf cds"
    by (simp_all add: dicts_wf_def)
  from Cons.IH[OF wf, of "add_items totals d"] obtain totals' where
    t: "sum_responses (add_items totals d) (map (\<lambda>(c, d). ok c d) cds) = Inr totals'"
    and tk: "\<And>k. totals' k =
        (if k \<in> set (concat (map (\<lambda>(c, d). map fst d) cds))
         then Some ((case add_items totals d k of None \<Rightarrow> 0 | Some t \<Rightarrow> t) + sum_list (map (\<lambda>(c, d). stat_at d k) cds))
         else add_items totals d k)"
    by blast
  have "sum_responses totals (map (\<lambda>(c, d). ok c d) (a # cds)) = Inr totals'"
    using t a by (simp add: ok_def value_or_raise_def)
  moreover have "\<forall>k. totals' k =
        (if k \<in> set (concat (map (\<lambda>(c, d). map fst d) (a # cds)))
         then Some ((case totals k of None \<Rightarrow> 0 | Some t \<Rightarrow> t) + sum_list (map (\<lambda>(c, d). stat_at d k) (a # cds)))
         else totals k)"
  proof
    fix k
    show "totals' k =
        (if k \<in> set (concat (map (\<lambda>(c, d). map fst d) (a # cds)))
         then Some ((case totals k of None \<Rightarrow> 0 | Some t \<Rightarrow> t) + sum_list (map (\<lambda>(c, d). stat_at d k) (a # cds)))
         else totals k)"
    proof (cases "k \<in> set (concat (map (\<lambda>(c, d). map fst d) cds))")
      case True
      then show ?thesis
        using a by (auto simp: tk add_items_apply[OF dd] stat_at_absent split: option.splits)
    next
      case False
      then show ?thesis
        using a sum_stat_at_absent[OF False]
        by (auto simp: tk add_items_apply[OF dd] stat_at_absent split: option.splits)
    qed
  qed
  ultimately show ?case by blast
qed

section \<open>Claim on key-wise sums\<close>

text \<open>
  C6. For every sequence of successful responses whose values are numeric dictionaries,
  compute_node_stats returns the key-wise sum across all cells: each key seen is mapped to the
  sum of its values, a response without the key contributing zero, and no other key is set.
\<close>

theorem compute_node_stats_keywise_sum:
  assumes "dicts_wf cds"
  shows "compute_node_stats (\<lambda>_. map (\<lambda>(c, d). ok c d) cds) ctxt = Inr (summed_stats cds)"
proof -
  from sum_responses_ok[OF assms, of Map.empty] obtain totals' where
    t: "sum_responses Map.empty (map (\<lambda>(c, d). ok c d) cds) = Inr totals'"
    and tk: "\<And>k. totals' k =
        (if k \<in> set (concat (map (\<lambda>(c, d). map fst d) cds))
         then Some ((case Map.empty k of None \<Rightarrow> 0 | Some t \<Rightarrow> t) + sum_list (map (\<lambda>(c, d). stat_at d k) cds))
         else Map.empty k)"
    by blast
  have "totals' = summed_stats cds"
    by (rule ext) (simp add: tk summed_stats_def)
  with t show ?thesis by (simp add: compute_node_stats_def)
qed

theorem compute_node_stats_keywise_sum_witness:
  "dicts_wf [(''cellA'', [(''x'', 1), (''y'', 2)]), (''cellB'', [(''x'', 3)])] \<and>
   (case compute_node_stats
           (\<lambda>_. [ok ''cellA'' [(''x'', 1), (''y'', 2)], ok ''cellB'' [(''x'', 3)]]) ()
    of Inr totals \<Rightarrow> [totals ''x'', totals ''y'', totals ''z''] | Inl _ \<Rightarrow> [])
     = [Some 4, Some 2, None]"
  using compute_node_stats_keywise_sum
    [where cds = "[(''cellA'', [(''x'', 1), (''y'', 2)]), (''cellB'', [(''x'', 3)])]"
       and ctxt = "()"]
  by (simp add: dicts_wf_def summed_stats_def stat_at_def)

section \<open>Lemmas on the healing task\<close>

declare heal_loop.simps(2) [simp del]

lemma events_of_triple [simp]: "events_of (x, st, evs) = evs"
  by (simp add: events_of_def)

lemma events_of_emit [simp]: "events_of (emit evs res) = evs @ events_of res"
  by (cases res) (simp add: emit_def events_of_def)

lemma heal_loop_raise:
  "next_instance c e st = (Inl x, st1, evs) \<Longrightarrow> heal_loop c e (Suc n) st = (Some x, st1, evs)"
  by (simp add: heal_loop.simps(2))

lemma heal_loop_empty:
  "next_instance c e st = (Inr None, st1, evs) \<Longrightarrow> heal_loop c e (Suc n) st = (None, st1, evs)"
  by (simp add: heal_loop.simps(2))

lemma heal_loop_blank:
  "next_instance c e st = (Inr (Some []), st1, evs) \<Longrightarrow>
   heal_loop c e (Suc n) st = (None, st1, evs)"
  by (simp add: heal_loop.simps(2))

lemma heal_loop_missing:
  "next_instance c e st = (Inr (Some u), st1, evs) \<Longrightarrow> u \<noteq> [] \<Longrightarrow>
   instance_get_by_uuid e u = None \<Longrightarrow>
   heal_loop c e (Suc n) st = emit (evs @ [Lookup u]) (heal_loop c e (Suc n) st1)"
  by (simp add: heal_loop.simps(2))

lemma heal_loop_found:
  "next_instance c e st = (Inr (Some u), st1, evs) \<Longrightarrow> u \<noteq> [] \<Longrightarrow>
   instance_get_by_uuid e u = Some inst \<Longrightarrow>
   heal_loop c e (Suc n) st = emit (evs @ [Lookup u] @ sync_instance inst) (heal_loop c e n st1)"
  by (simp add: heal_loop.simps(2))

lemma heal_loop_steps [case_names Done Raise Empty Blank Missing Found]:
  assumes "\<And>c e st. P c e 0 st (None, st, [])"
    and "\<And>c e n st x st1 evs. next_instance c e st = (Inl x, st1, evs) \<Longrightarrow>
           P c e (Suc n) st (Some x, st1, evs)"
    and "\<And>c e n st st1 evs. next_instance c e st = (Inr None, st1, evs) \<Longrightarrow>
           P c e (Suc n) st (None, st1, evs)"
    and "\<And>c e n st st1 evs. next_instance c e st = (Inr (Some []), st1, evs) \<Longrightarrow>
           P c e (Suc n) st (None, st1, evs)"
    and "\<And>c e n st u st1 evs. next_instance c e st = (Inr (Some u), st1, evs) \<Longrightarrow>
           u \<noteq> [] \<Longrightarrow> instance_get_by_uuid e u = None \<Longrightarrow>
           P c e (Suc n) st1 (heal_loop c e (Suc n) st1) \<Longrightarrow>
           P c e (Suc n) st (emit (evs @ [Lookup u]) (heal_loop c e (Suc n) st1))"
    and "\<And>c e n st u st1 evs inst. next_instance c e st = (Inr (Some u), st1, evs) \<Longrightarrow>
           u \<noteq> [] \<Longrightarrow> instance_get_by_uuid e u = Some inst \<Longrightarrow>
           P c e n st1 (heal_loop c e n st1) \<Longrightarrow>
           P c e (Suc n) st (emit (evs @ [Lookup u] @ sync_instance inst) (heal_loop c e n st1))"
  shows "P c e n st (heal_loop c e n st)"
proof (induction c e n st rule: heal_loop.induct)
  case (1 c e st)
  show ?case using assms(1) by simp
next
  case (2 c e n st)
  obtain r st1 evs where ni: "next_instance c e st = (r, st1, evs)"
    by (cases "next_instance c e st") auto
  show ?case
  proof (cases r)
    case (Inl x)
    with ni assms(2) show ?thesis by (simp add: heal_loop_raise)
  next
    case (Inr b)
    show ?thesis
    proof (cases b)
      case None
      with Inr ni assms(3) show ?thesis by (simp add: heal_loop_empty)
    next
      case (Some u)
      show ?thesis
      proof (cases "u = []")
        case True
        with Some Inr ni assms(4) show ?thesis by (simp add: heal_loop_blank)
      next
        case False
        note ni' = ni[unfolded Inr Some]
        show ?thesis
        proof (cases "instance_get_by_uuid e u")
          case None
          have "P c e (Suc n) st1 (heal_loop c e (Suc n) st1)"
            using "2.IH"(1)[of r "(st1, evs)" b u st1 evs] ni Inr Some False None by simp
          from assms(5)[OF ni' False None this] show ?thesis
            by (simp add: heal_loop_missing[OF ni' False None])
        next
          case (Some inst)
          have "P c e n st1 (heal_loop c e n st1)"
            using "2.IH"(2)[of r "(st1, evs)" b u st1 evs inst] ni Inr \<open>b = Some u\<close> False Some
            by simp
          from assms(6)[OF ni' False Some this] show ?thesis
            by (simp add: heal_loop_found[OF ni' False Some])
        qed
      qed
    qed
  qed
qed


lemma next_instance_events:
  "next_instance c e st = (r, st1, evs) \<Longrightarrow>
     (evs = [] \<and> updated_list st1 = updated_list st) \<or>
     (\<exists>us. evs = [Scan us] \<and> refill_since c e = Inr us \<and> \<not> updated_list st \<and>
        updated_list st1 \<and> (get_instances_to_sync e us = [] \<longrightarrow> r = Inr None))"
  by (auto simp: next_instance_def Let_def split: list.splits if_splits sum.splits)

lemma next_instance_no_emission:
  "next_instance c e st = (r, st1, evs) \<Longrightarrow> filter is_emission evs = []"
  by (drule next_instance_events) auto

lemma next_instance_no_lookup:
  "next_instance c e st = (r, st1, evs) \<Longrightarrow> found_records e evs = []"
  by (drule next_instance_events) (auto simp: found_records_def List.map_filter_def)

lemma sync_instance_emission: "sync_instance inst = [emission_for inst]"
  by (simp add: sync_instance_def emission_for_def instance_destroy_at_top_def
      instance_update_at_top_def)

lemma is_emission_emission_for [simp]: "is_emission (emission_for inst)"
  by (simp add: emission_for_def)

lemma is_scan_emission_for [simp]: "\<not> is_scan (emission_for inst)"
  by (simp add: emission_for_def)

lemma looked_up_emission_for [simp]: "looked_up e (emission_for inst) = None"
  by (simp add: emission_for_def)

lemma heal_loop_budget: "num_synced (events_of (heal_loop c e n st)) \<le> n"
proof (rule heal_loop_steps
    [where P = "\<lambda>c e n st res. num_synced (events_of res) \<le> n"])
qed (auto simp: num_synced_def sync_instance_emission
    dest: next_instance_no_emission)

lemma heal_loop_scans:
  "num_scans (events_of (heal_loop c e n st)) \<le> (if updated_list st then 0 else 1)"
proof (rule heal_loop_steps
    [where P = "\<lambda>c e n st res. num_scans (events_of res) \<le> (if updated_list st then 0 else 1)"])
qed (auto simp: num_scans_def sync_instance_emission
    dest!: next_instance_events split: if_splits)

lemma heal_loop_scan_arg:
  "Scan us \<in> set (events_of (heal_loop c e n st)) \<Longrightarrow> refill_since c e = Inr us"
proof (rule heal_loop_steps
    [where P = "\<lambda>c e n st res. Scan us \<in> set (events_of res) \<longrightarrow> refill_since c e = Inr us",
     rule_format])
qed (auto simp: sync_instance_emission emission_for_def
    dest!: next_instance_events split: if_splits)

lemma heal_loop_emissions:
  "filter is_emission (events_of (heal_loop c e n st))
     = map emission_for (found_records e (events_of (heal_loop c e n st)))"
proof (rule heal_loop_steps
    [where P = "\<lambda>c e n st res. filter is_emission (events_of res)
       = map emission_for (found_records e (events_of res))"])
qed (auto simp: sync_instance_emission found_records_def List.map_filter_def
    dest!: next_instance_events)

lemma heal_loop_empty_refill:
  "Scan us \<in> set (events_of (heal_loop c e n st)) \<Longrightarrow> get_instances_to_sync e us = [] \<Longrightarrow>
   last (events_of (heal_loop c e n st)) = Scan us"
proof (rule heal_loop_steps
    [where P = "\<lambda>c e n st res. Scan us \<in> set (events_of res) \<longrightarrow>
        get_instances_to_sync e us = [] \<longrightarrow> last (events_of res) = Scan us",
     rule_format])
qed (auto simp: sync_instance_emission emission_for_def
    dest!: next_instance_events split: if_splits)

lemma emit_emit: "emit evs (emit evs' res) = emit (evs @ evs') res"
  by (cases res) (simp add: emit_def)

lemma emit_triple: "emit evs (x, st, evs') = (x, st, evs @ evs')"
  by (simp add: emit_def)

lemma next_instance_refill:
  "instances_to_heal st = [] \<Longrightarrow> \<not> updated_list st \<Longrightarrow> refill_since c e = Inr us \<Longrightarrow>
   next_instance c e st =
     (case get_instances_to_sync e us of
        [] \<Rightarrow> (Inr None, st\<lparr>instances_to_heal := [], updated_list := True\<rparr>, [Scan us])
      | u # rest \<Rightarrow>
          (Inr (Some u), st\<lparr>instances_to_heal := rest, updated_list := True\<rparr>, [Scan us]))"
  by (simp add: next_instance_def Let_def split: list.splits)

lemma next_instance_refilled:
  "next_instance c e \<lparr>instances_to_heal = pending, updated_list = True\<rparr> =
     (case pending of
        [] \<Rightarrow> (Inr None, \<lparr>instances_to_heal = [], updated_list = True\<rparr>, [])
      | u # rest \<Rightarrow> (Inr (Some u), \<lparr>instances_to_heal = rest, updated_list = True\<rparr>, []))"
  by (simp add: next_instance_def split: list.splits)

lemma heal_loop_refill:
  assumes "refill_since c e = Inr us"
  shows "heal_loop c e (Suc n) \<lparr>instances_to_heal = [], updated_list = False\<rparr>
     = emit [Scan us]
         (heal_loop c e (Suc n)
            \<lparr>instances_to_heal = get_instances_to_sync e us, updated_list = True\<rparr>)"
proof (cases "get_instances_to_sync e us")
  case Nil
  have a: "next_instance c e \<lparr>instances_to_heal = [], updated_list = False\<rparr>
      = (Inr None, \<lparr>instances_to_heal = [], updated_list = True\<rparr>, [Scan us])"
    using assms Nil by (simp add: next_instance_refill)
  have b: "next_instance c e \<lparr>instances_to_heal = [], updated_list = True\<rparr>
      = (Inr None, \<lparr>instances_to_heal = [], updated_list = True\<rparr>, [])"
    by (simp add: next_instance_refilled)
  show ?thesis
    by (simp add: Nil heal_loop_empty[OF a] heal_loop_empty[OF b] emit_triple)
next
  case (Cons u rest)
  have a: "next_instance c e \<lparr>instances_to_heal = [], updated_list = False\<rparr>
      = (Inr (Some u), \<lparr>instances_to_heal = rest, updated_list = True\<rparr>, [Scan us])"
    using assms Cons by (simp add: next_instance_refill)
  have b: "next_instance c e \<lparr>instances_to_heal = u # rest, updated_list = True\<rparr>
      = (Inr (Some u), \<lparr>instances_to_heal = rest, updated_list = True\<rparr>, [])"
    by (simp add: next_instance_refilled)
  show ?thesis
  proof (cases "u = []")
    case True
    show ?thesis
      using a b unfolding True Cons
      by (simp add: heal_loop_blank emit_triple)
  next
    case False
    show ?thesis
    proof (cases "instance_get_by_uuid e u")
      case None
      show ?thesis
        by (simp add: Cons heal_loop_missing[OF a False None] heal_loop_missing[OF b False None]
            emit_emit)
    next
      case (Some inst)
      show ?thesis
        by (simp add: Cons heal_loop_found[OF a False Some] heal_loop_found[OF b False Some]
            emit_emit)
    qed
  qed
qed

lemma refill_since_value:
  "(0 < instance_updated_at_threshold c \<longrightarrow>
      0 \<le> utcnow e - instance_updated_at_threshold c * 1000000) \<Longrightarrow>
   refill_since c e =
     Inr (if 0 < instance_updated_at_threshold c
          then Some (utcnow e - instance_updated_at_threshold c * 1000000) else None)"
  by (auto simp: refill_since_def Let_def)

section \<open>Claims on the healing task\<close>

lemma heal_instances_events:
  "get_parent_cells e \<noteq> [] \<Longrightarrow> \<not> xrange_overflows e (instance_update_num_instances c) \<Longrightarrow>
   events_of (heal_instances c e pending)
     = events_of (heal_loop c e (nat (instance_update_num_instances c))
         \<lparr>instances_to_heal = pending, updated_list = False\<rparr>)"
  by (simp add: heal_instances_def events_of_def split: prod.splits)

lemma heal_instances_no_events:
  "get_parent_cells e = [] \<or> xrange_overflows e (instance_update_num_instances c) \<Longrightarrow>
   events_of (heal_instances c e pending) = []"
  by (auto simp: heal_instances_def)

text \<open>
  C2. In every run of the healing task at most instance_update_num_instances instances are
  synced (sent up as an update or a destroy), however long the backlog is; a negative
  setting syncs none. With no parent cells the run does nothing at all.
\<close>

theorem heal_instances_budget:
  "int (num_synced (events_of (heal_instances c e pending)))
     \<le> max 0 (instance_update_num_instances c) \<and>
   events_of (heal_instances c (e\<lparr>get_parent_cells := []\<rparr>) pending) = []"
proof -
  have "num_synced (events_of (heal_instances c e pending)) \<le> nat (instance_update_num_instances c)"
  proof (cases "get_parent_cells e \<noteq> [] \<and> \<not> xrange_overflows e (instance_update_num_instances c)")
    case True
    then show ?thesis by (simp add: heal_instances_events heal_loop_budget)
  next
    case False
    then have "events_of (heal_instances c e pending) = []"
      by (intro heal_instances_no_events) auto
    then show ?thesis by (simp add: num_synced_def)
  qed
  then have "int (num_synced (events_of (heal_instances c e pending)))
     \<le> max 0 (instance_update_num_instances c)" by linarith
  moreover have "events_of (heal_instances c (e\<lparr>get_parent_cells := []\<rparr>) pending) = []"
    by (simp add: heal_instances_no_events)
  ultimately show ?thesis by simp
qed

theorem heal_instances_budget_witness:
  "num_synced (events_of (heal_instances (example_conf 3600 2)
      (example_env [''b'', ''c'', ''d'']) [''a'', ''c'', ''d''])) = 2 \<and>
   int (num_synced (events_of (heal_instances (example_conf 3600 2)
      (example_env [''b'', ''c'', ''d'']) [''a'', ''c'', ''d''])))
     \<le> max 0 (instance_update_num_instances (example_conf 3600 2)) \<and>
   events_of (heal_instances (example_conf 3600 2)
      ((example_env [''b'', ''c'', ''d''])\<lparr>get_parent_cells := []\<rparr>) [''a'', ''c'', ''d'']) = []"
proof -
  have "num_synced (events_of (heal_instances (example_conf 3600 2)
      (example_env [''b'', ''c'', ''d'']) [''a'', ''c'', ''d''])) = 2"
    by code_simp
  with heal_instances_budget[of "example_conf 3600 2" "example_env [''b'', ''c'', ''d'']"
      "[''a'', ''c'', ''d'']"]
  show ?thesis by simp
qed

text \<open>
  C3. In one run of the healing task the listing get_instances_to_sync is called at most
  once, however many uuids are drawn and however often the iterator is found empty. If that
  one listing is empty too, the run ends there: the call is the last thing it does.
\<close>

theorem heal_instances_one_scan:
  "num_scans (events_of (heal_instances c e pending)) \<le> 1 \<and>
   (\<forall>us. Scan us \<in> set (events_of (heal_instances c e pending)) \<longrightarrow>
      get_instances_to_sync e us = [] \<longrightarrow>
      last (events_of (heal_instances c e pending)) = Scan us)"
proof (cases "get_parent_cells e \<noteq> [] \<and> \<not> xrange_overflows e (instance_update_num_instances c)")
  case True
  then have ev: "events_of (heal_instances c e pending)
     = events_of (heal_loop c e (nat (instance_update_num_instances c))
         \<lparr>instances_to_heal = pending, updated_list = False\<rparr>)"
    by (simp add: heal_instances_events)
  have "num_scans (events_of (heal_instances c e pending)) \<le> 1"
    unfolding ev
    using heal_loop_scans[of c e "nat (instance_update_num_instances c)"
        "\<lparr>instances_to_heal = pending, updated_list = False\<rparr>"]
    by simp
  moreover have "\<forall>us. Scan us \<in> set (events_of (heal_instances c e pending)) \<longrightarrow>
      get_instances_to_sync e us = [] \<longrightarrow>
      last (events_of (heal_instances c e pending)) = Scan us"
    unfolding ev using heal_loop_empty_refill by blast
  ultimately show ?thesis by simp
next
  case False
  then have "events_of (heal_instances c e pending) = []"
    by (intro heal_instances_no_events) auto
  then show ?thesis by (simp add: num_scans_def)
qed

theorem heal_instances_one_scan_witness:
  "events_of (heal_instances (example_conf 3600 3) (example_env []) [''a''])
     = [Lookup ''a'', UpdateAtTop \<lparr>uuid = ''a'', deleted = False\<rparr>, Scan (Some 1400000000)] \<and>
   num_scans (events_of (heal_instances (example_conf 3600 3) (example_env []) [''a''])) \<le> 1 \<and>
   last (events_of (heal_instances (example_conf 3600 3) (example_env []) [''a'']))
     = Scan (Some 1400000000)"
proof -
  have ev: "events_of (heal_instances (example_conf 3600 3) (example_env []) [''a''])
     = [Lookup ''a'', UpdateAtTop \<lparr>uuid = ''a'', deleted = False\<rparr>, Scan (Some 1400000000)]"
    by code_simp
  have "Scan (Some 1400000000)
      \<in> set (events_of (heal_instances (example_conf 3600 3) (example_env []) [''a'']))"
    by (simp add: ev)
  moreover have "get_instances_to_sync (example_env []) (Some 1400000000) = []"
    by (simp add: example_env_def)
  ultimately show ?thesis
    using heal_instances_one_scan[of "example_conf 3600 3" "example_env []" "[''a'']"] ev
    by blast
qed

text \<open>
  C7. For every instance found during a run: a deleted instance is sent up as a destroy and
  any other as an update. The messages of a run are, in order, exactly one per instance
  that a lookup of the run returned, of the kind its deleted flag decides.
\<close>

theorem found_record_emission:
  "sync_instance inst = [if deleted inst then DestroyAtTop inst else UpdateAtTop inst] \<and>
   filter is_emission (events_of (heal_instances c e pending))
     = map (\<lambda>inst. if deleted inst then DestroyAtTop inst else UpdateAtTop inst)
         (found_records e (events_of (heal_instances c e pending)))"
proof -
  have ef: "emission_for = (\<lambda>inst. if deleted inst then DestroyAtTop inst else UpdateAtTop inst)"
    by (rule ext) (simp add: emission_for_def)
  have "filter is_emission (events_of (heal_instances c e pending))
     = map emission_for (found_records e (events_of (heal_instances c e pending)))"
  proof (cases "get_parent_cells e \<noteq> [] \<and> \<not> xrange_overflows e (instance_update_num_instances c)")
    case True
    then show ?thesis by (simp add: heal_instances_events heal_loop_emissions)
  next
    case False
    then have "events_of (heal_instances c e pending) = []"
      by (intro heal_instances_no_events) auto
    then show ?thesis by (simp add: found_records_def List.map_filter_def)
  qed
  then show ?thesis
    by (simp add: ef sync_instance_def instance_destroy_at_top_def instance_update_at_top_def)
qed

theorem found_record_emission_witness:
  "found_records (example_env [''b'', ''c'', ''d''])
     (events_of (heal_instances (example_conf 0 3) (example_env [''b'', ''c'', ''d'']) [''a'']))
     = [\<lparr>uuid = ''a'', deleted = False\<rparr>, \<lparr>uuid = ''c'', deleted = True\<rparr>,
        \<lparr>uuid = ''d'', deleted = False\<rparr>] \<and>
   filter is_emission
     (events_of (heal_instances (example_conf 0 3) (example_env [''b'', ''c'', ''d'']) [''a'']))
     = [UpdateAtTop \<lparr>uuid = ''a'', deleted = False\<rparr>,
        DestroyAtTop \<lparr>uuid = ''c'', deleted = True\<rparr>,
        UpdateAtTop \<lparr>uuid = ''d'', deleted = False\<rparr>]"
proof -
  have "found_records (example_env [''b'', ''c'', ''d''])
     (events_of (heal_instances (example_conf 0 3) (example_env [''b'', ''c'', ''d'']) [''a'']))
     = [\<lparr>uuid = ''a'', deleted = False\<rparr>, \<lparr>uuid = ''c'', deleted = True\<rparr>,
        \<lparr>uuid = ''d'', deleted = False\<rparr>]"
    by code_simp
  with found_record_emission[of _ "example_conf 0 3" "example_env [''b'', ''c'', ''d'']" "[''a'']"]
  show ?thesis by simp
qed

text \<open>
  C8. With a threshold above zero a refill asks get_instances_to_sync for the instances
  updated since now minus threshold seconds (the clock counts microseconds), and with
  threshold 0 it asks with updated_since None. Every listing call of a run carries that
  argument; a refill draws from what the listing returns for that very argument; and a run
  that starts with nothing pending is that call followed by the run on what it returned.
\<close>

theorem refill_updated_since:
  "(Scan us \<in> set (events_of (heal_instances c e pending)) \<longrightarrow>
      (0 < instance_updated_at_threshold c \<longrightarrow>
         us = Some (utcnow e - instance_updated_at_threshold c * 1000000)) \<and>
      (instance_updated_at_threshold c = 0 \<longrightarrow> us = None)) \<and>
   (instances_to_heal st = [] \<longrightarrow> \<not> updated_list st \<longrightarrow>
    (0 < instance_updated_at_threshold c \<longrightarrow>
       0 \<le> utcnow e - instance_updated_at_threshold c * 1000000) \<longrightarrow>
      next_instance c e st =
        (let updated_since =
               (if 0 < instance_updated_at_threshold c
                then Some (utcnow e - instance_updated_at_threshold c * 1000000) else None)
         in case get_instances_to_sync e updated_since of
              [] \<Rightarrow> (Inr None, st\<lparr>instances_to_heal := [], updated_list := True\<rparr>,
                     [Scan updated_since])
            | u # rest \<Rightarrow>
                (Inr (Some u), st\<lparr>instances_to_heal := rest, updated_list := True\<rparr>,
                 [Scan updated_since]))) \<and>
   (get_parent_cells e \<noteq> [] \<longrightarrow> 0 < instance_update_num_instances c \<longrightarrow>
    \<not> xrange_overflows e (instance_update_num_instances c) \<longrightarrow>
    (0 < instance_updated_at_threshold c \<longrightarrow>
       0 \<le> utcnow e - instance_updated_at_threshold c * 1000000) \<longrightarrow>
      events_of (heal_instances c e []) =
        (let updated_since =
               (if 0 < instance_updated_at_threshold c
                then Some (utcnow e - instance_updated_at_threshold c * 1000000) else None)
         in Scan updated_since #
            events_of (heal_loop c e (nat (instance_update_num_instances c))
              \<lparr>instances_to_heal = get_instances_to_sync e updated_since,
               updated_list = True\<rparr>)))"
proof (intro conjI impI)
  assume scan: "Scan us \<in> set (events_of (heal_instances c e pending))"
  have run: "get_parent_cells e \<noteq> [] \<and> \<not> xrange_overflows e (instance_update_num_instances c)"
  proof (rule ccontr)
    assume "\<not> ?thesis"
    then have "events_of (heal_instances c e pending) = []"
      by (intro heal_instances_no_events) auto
    with scan show False by simp
  qed
  with scan have rs: "refill_since c e = Inr us"
    by (simp add: heal_instances_events heal_loop_scan_arg)
  {
    assume "0 < instance_updated_at_threshold c"
    with rs show "us = Some (utcnow e - instance_updated_at_threshold c * 1000000)"
      by (auto simp: refill_since_def Let_def split: if_splits)
  }
  {
    assume "instance_updated_at_threshold c = 0"
    with rs show "us = None"
      by (auto simp: refill_since_def Let_def split: if_splits)
  }
next
  assume "instances_to_heal st = []" "\<not> updated_list st"
    and "0 < instance_updated_at_threshold c \<longrightarrow>
       0 \<le> utcnow e - instance_updated_at_threshold c * 1000000"
  then show "next_instance c e st =
        (let updated_since =
               (if 0 < instance_updated_at_threshold c
                then Some (utcnow e - instance_updated_at_threshold c * 1000000) else None)
         in case get_instances_to_sync e updated_since of
              [] \<Rightarrow> (Inr None, st\<lparr>instances_to_heal := [], updated_list := True\<rparr>,
                     [Scan updated_since])
            | u # rest \<Rightarrow>
                (Inr (Some u), st\<lparr>instances_to_heal := rest, updated_list := True\<rparr>,
                 [Scan updated_since]))"
    unfolding Let_def
    by (intro next_instance_refill refill_since_value) auto
next
  assume a: "get_parent_cells e \<noteq> []" "0 < instance_update_num_instances c"
    "\<not> xrange_overflows e (instance_update_num_instances c)"
    "0 < instance_updated_at_threshold c \<longrightarrow>
       0 \<le> utcnow e - instance_updated_at_threshold c * 1000000"
  from a(2) obtain n where n: "nat (instance_update_num_instances c) = Suc n"
    by (cases "nat (instance_update_num_instances c)") auto
  show "events_of (heal_instances c e []) =
        (let updated_since =
               (if 0 < instance_updated_at_threshold c
                then Some (utcnow e - instance_updated_at_threshold c * 1000000) else None)
         in Scan updated_since #
            events_of (heal_loop c e (nat (instance_update_num_instances c))
              \<lparr>instances_to_heal = get_instances_to_sync e updated_since,
               updated_list = True\<rparr>))"
    unfolding Let_def heal_instances_events[OF a(1,3)] n
    by (simp add: heal_loop_refill[OF refill_since_value[OF a(4)]])
qed

theorem refill_updated_since_witness:
  "events_of (heal_instances (example_conf 3600 3) example_store_env [])
     = [Scan (Some 1400000000), Lookup ''c'', DestroyAtTop \<lparr>uuid = ''c'', deleted = True\<rparr>,
        Lookup ''d'', UpdateAtTop \<lparr>uuid = ''d'', deleted = False\<rparr>] \<and>
   events_of (heal_instances (example_conf 0 3) example_store_env [])
     = [Scan None, Lookup ''a'', UpdateAtTop \<lparr>uuid = ''a'', deleted = False\<rparr>,
        Lookup ''c'', DestroyAtTop \<lparr>uuid = ''c'', deleted = True\<rparr>,
        Lookup ''d'', UpdateAtTop \<lparr>uuid = ''d'', deleted = False\<rparr>] \<and>
   next_instance (example_conf 3600 3) example_store_env
       \<lparr>instances_to_heal = [], updated_list = False\<rparr>
     = (Inr (Some ''c''), \<lparr>instances_to_heal = [''d''], updated_list = True\<rparr>,
        [Scan (Some 1400000000)]) \<and>
   next_instance (example_conf 0 3) example_store_env
       \<lparr>instances_to_heal = [], updated_list = False\<rparr>
     = (Inr (Some ''a''), \<lparr>instances_to_heal = [''c'', ''d''], updated_list = True\<rparr>,
        [Scan None])"
proof -
  have env: "get_parent_cells example_store_env \<noteq> []" "utcnow example_store_env = 5000000000"
    "\<not> xrange_overflows example_store_env 3"
    "get_instances_to_sync example_store_env (Some 1400000000) = [''c'', ''d'']"
    "get_instances_to_sync example_store_env None = [''a'', ''c'', ''d'']"
    by (simp_all add: example_store_env_def example_env_def xrange_overflows_def
        example_listing_def example_store_def)
  have cf: "instance_updated_at_threshold (example_conf 3600 3) = 3600"
    "instance_updated_at_threshold (example_conf 0 3) = 0"
    "instance_update_num_instances (example_conf 3600 3) = 3"
    "instance_update_num_instances (example_conf 0 3) = 3"
    by (simp_all add: example_conf_def)
  have l1: "events_of (heal_loop (example_conf 3600 3) example_store_env (nat 3)
       \<lparr>instances_to_heal = [''c'', ''d''], updated_list = True\<rparr>)
     = [Lookup ''c'', DestroyAtTop \<lparr>uuid = ''c'', deleted = True\<rparr>,
        Lookup ''d'', UpdateAtTop \<lparr>uuid = ''d'', deleted = False\<rparr>]"
    by code_simp
  have l0: "events_of (heal_loop (example_conf 0 3) example_store_env (nat 3)
       \<lparr>instances_to_heal = [''a'', ''c'', ''d''], updated_list = True\<rparr>)
     = [Lookup ''a'', UpdateAtTop \<lparr>uuid = ''a'', deleted = False\<rparr>,
        Lookup ''c'', DestroyAtTop \<lparr>uuid = ''c'', deleted = True\<rparr>,
        Lookup ''d'', UpdateAtTop \<lparr>uuid = ''d'', deleted = False\<rparr>]"
    by code_simp
  have e1: "events_of (heal_instances (example_conf 3600 3) example_store_env [])
     = [Scan (Some 1400000000), Lookup ''c'', DestroyAtTop \<lparr>uuid = ''c'', deleted = True\<rparr>,
        Lookup ''d'', UpdateAtTop \<lparr>uuid = ''d'', deleted = False\<rparr>]"
    using refill_updated_since[of _ "example_conf 3600 3" example_store_env _ _,
        THEN conjunct2, THEN conjunct2] env cf l1
    by simp
  have e0: "events_of (heal_instances (example_conf 0 3) example_store_env [])
     = [Scan None, Lookup ''a'', UpdateAtTop \<lparr>uuid = ''a'', deleted = False\<rparr>,
        Lookup ''c'', DestroyAtTop \<lparr>uuid = ''c'', deleted = True\<rparr>,
        Lookup ''d'', UpdateAtTop \<lparr>uuid = ''d'', deleted = False\<rparr>]"
    using refill_updated_since[of _ "example_conf 0 3" example_store_env _ _,
        THEN conjunct2, THEN conjunct2] env cf l0
    by simp
  have n1: "next_instance (example_conf 3600 3) example_store_env
       \<lparr>instances_to_heal = [], updated_list = False\<rparr>
     = (Inr (Some ''c''), \<lparr>instances_to_heal = [''d''], updated_list = True\<rparr>,
        [Scan (Some 1400000000)])"
    using refill_updated_since[of _ "example_conf 3600 3" example_store_env _
        "\<lparr>instances_to_heal = [], updated_list = False\<rparr>",
        THEN conjunct2, THEN conjunct1] env cf
    by simp
  have n0: "next_instance (example_conf 0 3) example_store_env
       \<lparr>instances_to_heal = [], updated_list = False\<rparr>
     = (Inr (Some ''a''), \<lparr>instances_to_heal = [''c'', ''d''], updated_list = True\<rparr>,
        [Scan None])"
    using refill_updated_since[of _ "example_conf 0 3" example_store_env _
        "\<lparr>instances_to_heal = [], updated_list = False\<rparr>",
        THEN conjunct2, THEN conjunct1] env cf
    by simp
  have "Some 1400000000 = Some (utcnow example_store_env
      - instance_updated_at_threshold (example_conf 3600 3) * 1000000)"
    using refill_updated_since[of "Some 1400000000" "example_conf 3600 3" example_store_env "[]",
        THEN conjunct1] e1 cf
    by simp
  with e1 e0 n1 n0 show ?thesis by simp
qed

text \<open>
  C9. A uuid whose lookup reports not-found does not end the run and sends nothing: the
  task goes on with the next candidate in the same slot. In the loop, the slot count stays
  as it was; for a run that starts on such a uuid, the run is that lookup followed by the
  run on the remaining uuids.
\<close>

theorem missing_record_skipped:
  "(next_instance c e st = (Inr (Some u), st1, evs) \<longrightarrow> u \<noteq> [] \<longrightarrow>
      instance_get_by_uuid e u = None \<longrightarrow>
      heal_loop c e (Suc n) st = emit (evs @ [Lookup u]) (heal_loop c e (Suc n) st1)) \<and>
   (get_parent_cells e \<noteq> [] \<longrightarrow> 0 < instance_update_num_instances c \<longrightarrow>
      instance_update_num_instances c \<le> maxint e \<longrightarrow> u \<noteq> [] \<longrightarrow>
      instance_get_by_uuid e u = None \<longrightarrow>
      heal_instances c e (u # rest) = emit [Lookup u] (heal_instances c e rest))"
proof -
  have "heal_instances c e (u # rest) = emit [Lookup u] (heal_instances c e rest)"
    if a: "get_parent_cells e \<noteq> []" "0 < instance_update_num_instances c"
      "instance_update_num_instances c \<le> maxint e" "u \<noteq> []" "instance_get_by_uuid e u = None"
  proof -
    from a(2) obtain n' where n': "nat (instance_update_num_instances c) = Suc n'"
      by (cases "nat (instance_update_num_instances c)") auto
    have ni: "next_instance c e \<lparr>instances_to_heal = u # rest, updated_list = False\<rparr>
        = (Inr (Some u), \<lparr>instances_to_heal = rest, updated_list = False\<rparr>, [])"
      by (simp add: next_instance_def)
    show ?thesis
      using a(1,2,3) n' heal_loop_missing[OF ni a(4,5), of n']
      by (simp add: heal_instances_def xrange_overflows_def emit_def split: prod.splits)
  qed
  then show ?thesis by (simp add: heal_loop_missing)
qed

theorem missing_record_skipped_witness:
  "heal_instances (example_conf 0 1) (example_env []) [''b'', ''c'', ''d'']
     = emit [Lookup ''b''] (heal_instances (example_conf 0 1) (example_env []) [''c'', ''d'']) \<and>
   heal_instances (example_conf 0 1) (example_env []) [''b'', ''c'', ''d'']
     = (None, [''d''], [Lookup ''b'', Lookup ''c'', DestroyAtTop \<lparr>uuid = ''c'', deleted = True\<rparr>]) \<and>
   heal_loop (example_conf 0 1) (example_env [''b'', ''d'']) (Suc 0)
       \<lparr>instances_to_heal = [], updated_list = False\<rparr>
     = emit [Scan None, Lookup ''b'']
         (heal_loop (example_conf 0 1) (example_env [''b'', ''d'']) (Suc 0)
            \<lparr>instances_to_heal = [''d''], updated_list = True\<rparr>)"
proof -
  have ni: "next_instance (example_conf 0 1) (example_env [''b'', ''d''])
        \<lparr>instances_to_heal = [], updated_list = False\<rparr>
      = (Inr (Some ''b''), \<lparr>instances_to_heal = [''d''], updated_list = True\<rparr>, [Scan None])"
    by (simp add: next_instance_def refill_since_def example_conf_def example_env_def)
  have db: "instance_get_by_uuid (example_env [''b'', ''d'']) ''b'' = None"
    "instance_get_by_uuid (example_env []) ''b'' = None"
    by (simp_all add: example_env_def example_db_def)
  have cf: "get_parent_cells (example_env []) \<noteq> []"
    "0 < instance_update_num_instances (example_conf 0 1)"
    "instance_update_num_instances (example_conf 0 1) \<le> maxint (example_env [])"
    by (simp_all add: example_env_def example_conf_def)
  have run: "heal_instances (example_conf 0 1) (example_env []) [''b'', ''c'', ''d'']
     = (None, [''d''], [Lookup ''b'', Lookup ''c'', DestroyAtTop \<lparr>uuid = ''c'', deleted = True\<rparr>])"
    by code_simp
  show ?thesis
    using missing_record_skipped[of "example_conf 0 1" "example_env [''b'', ''d'']"
        "\<lparr>instances_to_heal = [], updated_list = False\<rparr>" "''b''"
        "\<lparr>instances_to_heal = [''d''], updated_list = True\<rparr>" "[Scan None]" 0 "[]"]
      missing_record_skipped[of "example_conf 0 1" "example_env []" _ "''b''" _ _ _ "[''c'', ''d'']"]
      ni db cf run
    by simp
qed

section \<open>Claims on targeted queries\<close>

text \<open>
  C10. When compute_id splits into a cell part and an item part and the response is
  successful, compute_node_get tags the node with the cell parsed from compute_id, whatever
  cell_name the response carries; service_get_by_compute_host, on the same response, tags
  with the cell_name of the response.
\<close>

theorem compute_node_get_tags_requested_cell:
  assumes "split_cell_and_item compute_id = [cell, item]"
    and "msg_runner cell item = response"
    and "outcome response = Value node"
  shows "compute_node_get split_cell_and_item msg_runner add_cell compute_id
           = Inr (add_cell node cell) \<and>
         service_get_by_compute_host split_cell_and_item msg_runner add_cell compute_id
           = Inr (add_cell node (cell_name response))"
  using assms
  by (simp add: compute_node_get_def service_get_by_compute_host_def unpack2_def
      value_or_raise_def)

theorem compute_node_get_tags_requested_cell_witness:
  "example_split ''cell1@host1'' = [''cell1'', ''host1''] \<and>
   outcome (ok ''elsewhere'' (42::nat)) = Value 42 \<and>
   compute_node_get example_split (\<lambda>c i. ok ''elsewhere'' (42::nat)) (\<lambda>x c. (c, x))
       ''cell1@host1'' = Inr (''cell1'', 42) \<and>
   service_get_by_compute_host example_split (\<lambda>c i. ok ''elsewhere'' (42::nat)) (\<lambda>x c. (c, x))
       ''cell1@host1'' = Inr (''elsewhere'', 42)"
proof -
  have s: "example_split ''cell1@host1'' = [''cell1'', ''host1'']"
    by (simp add: example_split_def)
  have v: "outcome (ok ''elsewhere'' (42::nat)) = Value 42"
    by (simp add: ok_def)
  from compute_node_get_tags_requested_cell
    [where split_cell_and_item = example_split and compute_id = "''cell1@host1''"
       and cell = "''cell1''" and item = "''host1''"
       and msg_runner = "\<lambda>c i. ok ''elsewhere'' (42::nat)"
       and response = "ok ''elsewhere'' (42::nat)" and node = 42
       and add_cell = "\<lambda>x c. (c, x)"]
  show ?thesis using s v by (simp add: ok_def)
qed

text \<open>
  C1. proxy_rpc_to_manager with call false (a cast): the method still unwraps what the
  message runner returned. A response carrying a Failure is raised, a successful response
  is returned as the result, and no response at all raises AttributeError;
  run_compute_api_method, given call false, returns no result.
\<close>

theorem proxy_rpc_to_manager_cast_unwraps:
  "proxy_rpc_to_manager ''compute'' example_split
     (\<lambda>cell host topic msg call timeout. Some (fail cell ''boom'' :: (string, string) response))
     ''compute.cell1@host1'' ''msg'' False (None :: int option) = Inl (Failure ''boom'') \<and>
   proxy_rpc_to_manager ''compute'' example_split
     (\<lambda>cell host topic msg call timeout. Some (ok cell ''reply''))
     ''compute.cell1@host1'' ''msg'' False (None :: int option) = Inr (Some ''reply'') \<and>
   proxy_rpc_to_manager ''compute'' example_split
     (\<lambda>cell host topic msg call timeout. if call then Some (ok cell ''reply'') else None)
     ''compute.cell1@host1'' ''msg'' False (None :: int option) = Inl AttributeError \<and>
   run_compute_api_method
     (\<lambda>cell method_info call. Some (fail cell ''boom'' :: (string, string) response))
     ''cell1'' ''method'' False = Inr None"
  by (simp add: proxy_rpc_to_manager_def run_compute_api_method_def example_split_def
      unpack2_def value_or_raise_of_def value_or_raise_def ok_def fail_def)

end
